theory Spec2Isabelle
  imports Main
begin

section \<open>The host: edit mesh, selection flags, recorded calls\<close>

text \<open>
  The script \<^verbatim>\<open>ApplyMeshOperatorToSelection.py\<close> drives a host application through
  the modules \<^verbatim>\<open>bpy\<close> and \<^verbatim>\<open>bmesh\<close>. Neither module is part of the repository,
  so the part of the host that the script touches is modelled from the interface
  the specification lists: a mode of the active object, an edit mesh with three
  element collections, a select flag and an index attribute per element, lookup
  by index, a global deselect, and operators invoked with named parameters.
\<close>

datatype error =
    EnvironmentError
  | NameError
  | TypeError
  | UserWarning
  | AttributeError
  | IndexError
  | OperatorError string

text \<open>An element of the edit mesh: what \<^verbatim>\<open>p.index\<close> and \<^verbatim>\<open>p.select\<close> read.\<close>

record element =
  index :: int
  select :: bool

record bmesh =
  verts :: "element list"
  edges :: "element list"
  faces :: "element list"

text \<open>
  The state of the host proper: \<^verbatim>\<open>bpy.context.active_object.mode\<close> and the edit
  mesh behind \<^verbatim>\<open>bmesh.from_edit_mesh(obj.data)\<close>. The host is taken to have an
  active object, as the mode query of the interface presumes. The handle
  \<^verbatim>\<open>self.bm_\<close> is a reference to this live structure, so the model reads and
  writes it here and keeps no copy inside the executor.
\<close>

record host =
  mode :: string
  bm :: bmesh

text \<open>
  Calls into the host, in the order the script makes them. \<open>Invoke m\<close> is the
  call of the configured operator, with the edit mesh \<open>m\<close> the operator finds.
  \<^verbatim>\<open>ensure_lookup_table\<close> and \<^verbatim>\<open>bmesh.update_edit_mesh\<close> refresh and push
  the host's own copies; the model has one copy of the mesh, so these two calls
  are recorded and change nothing.
\<close>

datatype host_call =
    ModeSet string
  | FromEditMesh
  | SelectAllDeselect
  | UpdateEditMesh
  | EnsureLookupTable string
  | SetSelect string int
  | Invoke bmesh

text \<open>One argument of a \<^verbatim>\<open>print\<close> call; a console line is the list of arguments.\<close>

datatype printed = PStr string | PInt int | PAction

record world =
  host :: host
  calls :: "host_call list"
  console :: "printed list list"

text \<open>
  Modelled from the spec: the operator reference. The registry of mesh operators
  belongs to the host; an operator is identified by a dotted \<open>category.name\<close>
  string and is invoked with named parameters. \<open>is_callable\<close> is what
  \<^verbatim>\<open>callable(action)\<close> answers, \<open>idname_py\<close> what \<^verbatim>\<open>action.idname_py()\<close>
  returns (\<open>None\<close> when the object has no such attribute), and \<open>call\<close> the effect
  of the call on the host: the exception it raises, if any, and the host state
  it leaves.
\<close>

record 'v action =
  is_callable :: bool
  idname_py :: "string option"
  call :: "(string \<times> 'v) list \<Rightarrow> host \<Rightarrow> error option \<times> host"

text \<open>
  Modelled from the spec: \<^verbatim>\<open>getattr(bm, name)\<close> on the edit mesh, for the three
  per-kind collections; any other name has no element collection behind it.
\<close>

definition getattr_bm :: "bmesh \<Rightarrow> string \<Rightarrow> error + element list" where
  "getattr_bm m name =
     (if name = ''verts'' then Inr (verts m)
      else if name = ''edges'' then Inr (edges m)
      else if name = ''faces'' then Inr (faces m)
      else Inl AttributeError)"

text \<open>
  Modelled from the spec: the write through \<^verbatim>\<open>getattr(bm, name)\<close>; an element
  changed through the collection is changed in the edit mesh.
\<close>

definition put_collection :: "string \<Rightarrow> element list \<Rightarrow> bmesh \<Rightarrow> bmesh" where
  "put_collection name es m =
     (if name = ''verts'' then m\<lparr>verts := es\<rparr>
      else if name = ''edges'' then m\<lparr>edges := es\<rparr>
      else if name = ''faces'' then m\<lparr>faces := es\<rparr>
      else m)"

text \<open>
  Modelled from the spec: index-based lookup in a collection of \<open>n\<close> elements. As
  for a Python sequence, a negative index counts from the end and an index out
  of range raises \<^verbatim>\<open>IndexError\<close>.
\<close>

definition seq_position :: "nat \<Rightarrow> int \<Rightarrow> nat option" where
  "seq_position n i =
     (let j = (if i < 0 then int n + i else i)
      in if 0 \<le> j \<and> j < int n then Some (nat j) else None)"

text \<open>Modelled from the spec: \<^verbatim>\<open>bpy.ops.mesh.select_all(action='DESELECT')\<close>.\<close>

definition deselect :: "element \<Rightarrow> element" where
  "deselect p = p\<lparr>select := False\<rparr>"

text \<open>
  Modelled from the spec: the assignment \<^verbatim>\<open>p.select = True\<close>, on the flag of
  the element itself. What the host derives from it for elements of the other
  kinds is not part of the model; each kind has its own flags here.
\<close>

definition set_select :: "element \<Rightarrow> element" where
  "set_select p = p\<lparr>select := True\<rparr>"

definition select_all_deselect :: "host \<Rightarrow> host" where
  "select_all_deselect h =
     h\<lparr>bm := \<lparr>verts = map deselect (verts (bm h)),
               edges = map deselect (edges (bm h)),
               faces = map deselect (faces (bm h))\<rparr>\<rparr>"

text \<open>
  Modelled from the spec: \<^verbatim>\<open>bpy.ops.object.mode_set(mode=...)\<close>, the mode
  set for the active object.
\<close>

definition mode_set :: "string \<Rightarrow> world \<Rightarrow> world" where
  "mode_set m w = w\<lparr>host := (host w)\<lparr>mode := m\<rparr>, calls := calls w @ [ModeSet m]\<rparr>"

definition record_call :: "host_call \<Rightarrow> world \<Rightarrow> world" where
  "record_call c w = w\<lparr>calls := calls w @ [c]\<rparr>"

definition print :: "printed list \<Rightarrow> world \<Rightarrow> world" where
  "print args w = w\<lparr>console := console w @ [args]\<rparr>"

subsection \<open>Rendering an integer, as \<^verbatim>\<open>str(idx)\<close> does\<close>

fun str_nat :: "nat \<Rightarrow> string" where
  "str_nat n =
     (if n < 10 then [''0123456789'' ! n]
      else str_nat (n div 10) @ [''0123456789'' ! (n mod 10)])"

declare str_nat.simps [simp del]

definition str_int :: "int \<Rightarrow> string" where
  "str_int i = (if i < 0 then ''-'' @ str_nat (nat (- i)) else str_nat (nat i))"

subsection \<open>Splitting a dotted name, as \<^verbatim>\<open>s.split('.')\<close> does\<close>

fun split :: "char \<Rightarrow> string \<Rightarrow> string list" where
  "split c [] = [[]]"
| "split c (x # xs) =
     (if x = c then [] # split c xs
      else (case split c xs of
              [] \<Rightarrow> [[x]]
            | seg # segs \<Rightarrow> (x # seg) # segs))"

section \<open>The class \<^verbatim>\<open>ApplyMeshOperatorToSelection\<close>\<close>

record 'v executor =
  self_selection :: "int list"
  self_sel_type :: string
  self_action :: "'v action"
  self_param_dict :: "(string \<times> 'v) list"
  self_verbose :: bool

text \<open>
  A method either returns or raises; the world it leaves is kept in both cases,
  since nothing in the script rolls a change back.
\<close>

type_synonym outcome = "error option \<times> world"

definition and_then :: "outcome \<Rightarrow> (world \<Rightarrow> outcome) \<Rightarrow> outcome" where
  "and_then r f = (case r of (None, w) \<Rightarrow> f w | (Some e, w) \<Rightarrow> (Some e, w))"

definition validate_selection_type :: "'v executor \<Rightarrow> error option" where
  "validate_selection_type self =
     (if self_sel_type self \<notin> set [''verts'', ''edges'', ''faces''] then Some NameError
      else None)"

definition validate_action :: "'v executor \<Rightarrow> error option" where
  "validate_action self =
     (if \<not> is_callable (self_action self) then Some TypeError
      else (case idname_py (self_action self) of
              None \<Rightarrow> Some AttributeError
            | Some name \<Rightarrow>
                (case split (CHR ''.'') name of
                   [] \<Rightarrow> Some IndexError
                 | seg # _ \<Rightarrow> if seg \<noteq> ''mesh'' then Some TypeError else None)))"

definition read_selection :: "'v executor \<Rightarrow> world \<Rightarrow> outcome" where
  "read_selection self w =
     (None, record_call FromEditMesh (mode_set ''EDIT'' (mode_set ''OBJECT'' w)))"

definition init ::
  "string \<Rightarrow> 'v action \<Rightarrow> (string \<times> 'v) list \<Rightarrow> bool \<Rightarrow> world \<Rightarrow> (error + 'v executor) \<times> world"
where
  "init sel_type action param_dict verbose w =
     (if mode (host w) \<noteq> ''EDIT'' then (Inl EnvironmentError, w)
      else
        let self = \<lparr>self_selection = [], self_sel_type = sel_type, self_action = action,
                    self_param_dict = param_dict, self_verbose = verbose\<rparr>
        in (case validate_selection_type self of
              Some e \<Rightarrow> (Inl e, w)
            | None \<Rightarrow>
                (case validate_action self of
                   Some e \<Rightarrow> (Inl e, w)
                 | None \<Rightarrow>
                     (case read_selection self w of
                        (Some e, w') \<Rightarrow> (Inl e, w')
                      | (None, w') \<Rightarrow> (Inr self, w')))))"

definition store_selection :: "'v executor \<Rightarrow> world \<Rightarrow> error option \<times> 'v executor \<times> world" where
  "store_selection self w =
     (case getattr_bm (bm (host w)) (self_sel_type self) of
        Inl e \<Rightarrow> (Some e, self, w)
      | Inr coll \<Rightarrow>
          let self' = self\<lparr>self_selection := map index (filter select coll)\<rparr>
          in if length (self_selection self') = 0 then (Some UserWarning, self', w)
             else if self_verbose self'
               then (None, self',
                     print [PStr ''Selected '', PInt (int (length (self_selection self'))),
                            PStr (self_sel_type self')] w)
               else (None, self', w))"

definition deselect_all :: "'v executor \<Rightarrow> world \<Rightarrow> outcome" where
  "deselect_all self w =
     (let w1 = (if self_verbose self then print [PStr ''Deselect all faces''] w else w);
          w2 = record_call SelectAllDeselect (w1\<lparr>host := select_all_deselect (host w1)\<rparr>)
      in (None, record_call UpdateEditMesh w2))"

definition select_single_instance :: "'v executor \<Rightarrow> int \<Rightarrow> world \<Rightarrow> outcome" where
  "select_single_instance self idx w =
     (case getattr_bm (bm (host w)) (self_sel_type self) of
        Inl e \<Rightarrow> (Some e, w)
      | Inr coll \<Rightarrow>
          let w1 = record_call (EnsureLookupTable (self_sel_type self)) w
          in (case seq_position (length coll) idx of
                None \<Rightarrow> (Some IndexError, w1)
              | Some p \<Rightarrow>
                  let coll' = list_update coll p (set_select (coll ! p));
                      w2 = record_call (SetSelect (self_sel_type self) idx)
                             (w1\<lparr>host := (host w1)\<lparr>bm :=
                                put_collection (self_sel_type self) coll' (bm (host w1))\<rparr>\<rparr>)
                  in (None, record_call UpdateEditMesh w2)))"

text \<open>The call \<^verbatim>\<open>self.action_(**self.param_dict_)\<close>.\<close>

definition invoke_action :: "'v executor \<Rightarrow> world \<Rightarrow> outcome" where
  "invoke_action self w =
     (if \<not> is_callable (self_action self) then (Some TypeError, w)
      else
        let w1 = record_call (Invoke (bm (host w))) w
        in (case call (self_action self) (self_param_dict self) (host w1) of
              (r, h) \<Rightarrow> (r, w1\<lparr>host := h\<rparr>)))"

fun apply_loop :: "'v executor \<Rightarrow> int list \<Rightarrow> world \<Rightarrow> outcome" where
  "apply_loop self [] w = (None, w)"
| "apply_loop self (idx # rest) w =
     and_then (select_single_instance self idx w) (\<lambda>w1.
       let w2 = (if self_verbose self
                 then print [PStr ''Executing '', PAction,
                             PStr ('' on '' @ self_sel_type self @ str_int idx)] w1
                 else w1)
       in and_then (invoke_action self w2) (\<lambda>w3.
            and_then (deselect_all self w3) (\<lambda>w4.
              apply_loop self rest w4)))"

definition execute_action_on_selection :: "'v executor \<Rightarrow> world \<Rightarrow> outcome" where
  "execute_action_on_selection self w = apply_loop self (self_selection self) w"

fun restore_loop :: "'v executor \<Rightarrow> int list \<Rightarrow> world \<Rightarrow> outcome" where
  "restore_loop self [] w = (None, w)"
| "restore_loop self (idx # rest) w =
     and_then (select_single_instance self idx w) (\<lambda>w1. restore_loop self rest w1)"

definition restore_selection :: "'v executor \<Rightarrow> world \<Rightarrow> outcome" where
  "restore_selection self w = restore_loop self (self_selection self) w"

definition run :: "'v executor \<Rightarrow> world \<Rightarrow> error option \<times> 'v executor \<times> world" where
  "run self w =
     (case store_selection self w of
        (Some e, self', w1) \<Rightarrow> (Some e, self', w1)
      | (None, self', w1) \<Rightarrow>
          (case and_then (deselect_all self' w1) (\<lambda>w2.
                  and_then (execute_action_on_selection self' w2) (\<lambda>w3.
                    restore_selection self' w3)) of
             (r, w4) \<Rightarrow> (r, self', w4)))"

section \<open>Observations on a run\<close>

text \<open>The edit meshes the operator was invoked on, in order of invocation.\<close>

definition invoked :: "host_call list \<Rightarrow> bmesh list" where
  "invoked cs = concat (map (\<lambda>c. case c of Invoke m \<Rightarrow> [m] | _ \<Rightarrow> []) cs)"

text \<open>The per-element selections \<^verbatim>\<open>coll[idx].select = True\<close>, in order.\<close>

definition select_calls :: "host_call list \<Rightarrow> (string \<times> int) list" where
  "select_calls cs = concat (map (\<lambda>c. case c of SetSelect k i \<Rightarrow> [(k, i)] | _ \<Rightarrow> []) cs)"

text \<open>The calls made between the world \<open>w\<close> and a later world \<open>w'\<close>.\<close>

definition new_calls :: "world \<Rightarrow> world \<Rightarrow> host_call list" where
  "new_calls w w' = drop (length (calls w)) (calls w')"

text \<open>No element of any kind is selected.\<close>

definition all_clear :: "bmesh \<Rightarrow> bool" where
  "all_clear m \<longleftrightarrow>
     filter select (verts m) = [] \<and> filter select (edges m) = [] \<and> filter select (faces m) = []"

text \<open>
  Exactly one element of kind \<open>k\<close> is selected in \<open>m\<close>: the one that the lookup
  \<^verbatim>\<open>coll[idx]\<close> finds.
\<close>

definition only_selected :: "string \<Rightarrow> int \<Rightarrow> bmesh \<Rightarrow> bool" where
  "only_selected k idx m =
     (case getattr_bm m k of
        Inl _ \<Rightarrow> False
      | Inr coll \<Rightarrow>
          (case seq_position (length coll) idx of
             None \<Rightarrow> False
           | Some p \<Rightarrow> map select coll = list_update (replicate (length coll) False) p True))"

text \<open>Two worlds that differ in the console at most.\<close>

definition agree :: "world \<Rightarrow> world \<Rightarrow> bool" where
  "agree w1 w2 \<longleftrightarrow> host w1 = host w2 \<and> calls w1 = calls w2"

definition outcomes_agree :: "outcome \<Rightarrow> outcome \<Rightarrow> bool" where
  "outcomes_agree r1 r2 \<longleftrightarrow> fst r1 = fst r2 \<and> agree (snd r1) (snd r2)"

definition same_config :: "'v executor \<Rightarrow> 'v executor \<Rightarrow> bool" where
  "same_config s1 s2 \<longleftrightarrow>
     self_selection s1 = self_selection s2 \<and> self_sel_type s1 = self_sel_type s2 \<and>
     self_action s1 = self_action s2 \<and> self_param_dict s1 = self_param_dict s2"

text \<open>The statement \<^verbatim>\<open>if self.verbose_: print("Executing ", ...)\<close> of the apply loop.\<close>

definition announce :: "'v executor \<Rightarrow> int \<Rightarrow> world \<Rightarrow> world" where
  "announce self idx w =
     (if self_verbose self
      then print [PStr ''Executing '', PAction, PStr ('' on '' @ self_sel_type self @ str_int idx)] w
      else w)"

text \<open>What \<open>run\<close> does once the selection is stored: clear, apply, restore.\<close>

definition phases :: "'v executor \<Rightarrow> world \<Rightarrow> outcome" where
  "phases self w =
     and_then (apply_loop self (self_selection self) (snd (deselect_all self w)))
       (restore_loop self (self_selection self))"

text \<open>Every index of \<open>xs\<close> is a position of the collection \<open>d\<close>.\<close>

definition in_range :: "element list \<Rightarrow> int list \<Rightarrow> bool" where
  "in_range d xs \<longleftrightarrow> list_all (\<lambda>i. 0 \<le> i \<and> i < int (length d)) xs"

text \<open>
  The index attribute of every element is its position in the collection, as
  it is in a freshly entered edit mesh.
\<close>

definition valid_indices :: "element list \<Rightarrow> bool" where
  "valid_indices coll \<longleftrightarrow> map index coll = map int [0..<length coll]"

text \<open>
  An operator that never raises and leaves the collection of kind \<open>k\<close> as it
  finds it: no element added or removed, no index and no select flag changed.
\<close>

definition no_op_equivalent :: "'v action \<Rightarrow> string \<Rightarrow> bool" where
  "no_op_equivalent a k \<longleftrightarrow>
     (\<forall>p h. fst (call a p h) = None \<and> getattr_bm (bm (snd (call a p h))) k = getattr_bm (bm h) k)"

section \<open>Example data\<close>

text \<open>
  A mesh with four faces, of which faces 0, 2 and 3 are selected, and one
  unselected vertex; an operator that does nothing; an object that is not
  callable; an operator of another category.
\<close>

definition example_faces :: "element list" where
  "example_faces = [\<lparr>index = 0, select = True\<rparr>, \<lparr>index = 1, select = False\<rparr>,
             \<lparr>index = 2, select = True\<rparr>, \<lparr>index = 3, select = True\<rparr>]"

definition example_mesh :: bmesh where
  "example_mesh = \<lparr>verts = [\<lparr>index = 0, select = False\<rparr>], edges = [], faces = example_faces\<rparr>"

definition example_world :: world where
  "example_world = \<lparr>host = \<lparr>mode = ''EDIT'', bm = example_mesh\<rparr>, calls = [], console = []\<rparr>"

definition object_mode_world :: world where
  "object_mode_world = \<lparr>host = \<lparr>mode = ''OBJECT'', bm = example_mesh\<rparr>, calls = [], console = []\<rparr>"

definition noop_operator :: "unit action" where
  "noop_operator = \<lparr>is_callable = True, idname_py = Some ''mesh.noop'', call = (\<lambda>p h. (None, h))\<rparr>"

definition not_callable :: "unit action" where
  "not_callable = \<lparr>is_callable = False, idname_py = None, call = (\<lambda>p h. (None, h))\<rparr>"

definition object_operator :: "unit action" where
  "object_operator =
     \<lparr>is_callable = True, idname_py = Some ''object.join'', call = (\<lambda>p h. (None, h))\<rparr>"

definition faces_executor :: "unit executor" where
  "faces_executor = \<lparr>self_selection = [], self_sel_type = ''faces'', self_action = noop_operator,
                       self_param_dict = [], self_verbose = False\<rparr>"

definition only_face :: "nat \<Rightarrow> bmesh" where
  "only_face i = \<lparr>verts = [\<lparr>index = 0, select = False\<rparr>], edges = [],
     faces = map (\<lambda>j. \<lparr>index = int j, select = (j = i)\<rparr>) [0, 1, 2, 3]\<rparr>"

definition verts_executor :: "unit executor" where
  "verts_executor = faces_executor\<lparr>self_sel_type := ''verts''\<rparr>"

definition example_final_world :: world where
  "example_final_world =
     example_world\<lparr>calls :=
        [SelectAllDeselect, UpdateEditMesh,
         EnsureLookupTable ''faces'', SetSelect ''faces'' 0, UpdateEditMesh,
         Invoke (only_face 0), SelectAllDeselect, UpdateEditMesh,
         EnsureLookupTable ''faces'', SetSelect ''faces'' 2, UpdateEditMesh,
         Invoke (only_face 2), SelectAllDeselect, UpdateEditMesh,
         EnsureLookupTable ''faces'', SetSelect ''faces'' 3, UpdateEditMesh,
         Invoke (only_face 3), SelectAllDeselect, UpdateEditMesh,
         EnsureLookupTable ''faces'', SetSelect ''faces'' 0, UpdateEditMesh,
         EnsureLookupTable ''faces'', SetSelect ''faces'' 2, UpdateEditMesh,
         EnsureLookupTable ''faces'', SetSelect ''faces'' 3, UpdateEditMesh]\<rparr>"

text \<open>
  An operator that is cancelled when it finds face 2 alone selected, and the
  world in which the run on the example stops with that operator.
\<close>

definition raising_operator :: "unit action" where
  "raising_operator =
     \<lparr>is_callable = True, idname_py = Some ''mesh.inset'',
      call = (\<lambda>p h. if map select (faces (bm h)) = [False, False, True, False]
                     then (Some (OperatorError ''cancelled''), h)
                     else (None, h))\<rparr>"

definition raising_executor :: "unit executor" where
  "raising_executor = faces_executor\<lparr>self_action := raising_operator\<rparr>"

definition aborted_world :: world where
  "aborted_world =
     \<lparr>host = \<lparr>mode = ''EDIT'', bm = only_face 2\<rparr>,
      calls =
        [SelectAllDeselect, UpdateEditMesh,
         EnsureLookupTable ''faces'', SetSelect ''faces'' 0, UpdateEditMesh,
         Invoke (only_face 0), SelectAllDeselect, UpdateEditMesh,
         EnsureLookupTable ''faces'', SetSelect ''faces'' 2, UpdateEditMesh,
         Invoke (only_face 2)],
      console = []\<rparr>"

section \<open>Basic facts\<close>

lemma and_then_simps [simp]:
  "and_then (None, w) f = f w"
  "and_then (Some e, w) f = (Some e, w)"
  by (simp_all add: and_then_def)

lemma split_not_Nil: "split c s \<noteq> []"
  by (induction s) (auto split: list.splits)

lemma validate_action_TypeError:
  assumes "\<not> is_callable (self_action self) \<or>
     (\<exists>name. idname_py (self_action self) = Some name \<and> hd (split (CHR ''.'') name) \<noteq> ''mesh'')"
  shows "validate_action self = Some TypeError"
proof (cases "is_callable (self_action self)")
  case False
  then show ?thesis by (simp add: validate_action_def)
next
  case True
  with assms obtain name where n: "idname_py (self_action self) = Some name"
    and h: "hd (split (CHR ''.'') name) \<noteq> ''mesh''" by auto
  obtain seg segs where s: "split (CHR ''.'') name = seg # segs"
    using split_not_Nil [of "CHR ''.''" name] by (cases "split (CHR ''.'') name") auto
  with h have "seg \<noteq> ''mesh''" by simp
  with True n s show ?thesis by (simp add: validate_action_def)
qed

lemma invoked_simps [simp]:
  "invoked [] = []"
  "invoked (cs @ ds) = invoked cs @ invoked ds"
  "invoked (Invoke m # cs) = m # invoked cs"
  "invoked (ModeSet s # cs) = invoked cs"
  "invoked (FromEditMesh # cs) = invoked cs"
  "invoked (SelectAllDeselect # cs) = invoked cs"
  "invoked (UpdateEditMesh # cs) = invoked cs"
  "invoked (EnsureLookupTable k # cs) = invoked cs"
  "invoked (SetSelect k i # cs) = invoked cs"
  by (simp_all add: invoked_def)

lemma select_calls_simps [simp]:
  "select_calls [] = []"
  "select_calls (cs @ ds) = select_calls cs @ select_calls ds"
  "select_calls (SetSelect k i # cs) = (k, i) # select_calls cs"
  "select_calls (ModeSet s # cs) = select_calls cs"
  "select_calls (FromEditMesh # cs) = select_calls cs"
  "select_calls (SelectAllDeselect # cs) = select_calls cs"
  "select_calls (UpdateEditMesh # cs) = select_calls cs"
  "select_calls (EnsureLookupTable k # cs) = select_calls cs"
  "select_calls (Invoke m # cs) = select_calls cs"
  by (simp_all add: select_calls_def)

lemma new_calls_append [simp]: "calls w' = calls w @ evs \<Longrightarrow> new_calls w w' = evs"
  by (simp add: new_calls_def)

lemma deselect_all_result:
  "deselect_all self w =
     (None, (if self_verbose self then print [PStr ''Deselect all faces''] w else w)
        \<lparr>host := select_all_deselect (host w),
         calls := calls w @ [SelectAllDeselect, UpdateEditMesh]\<rparr>)"
  by (simp add: deselect_all_def Let_def record_call_def print_def)

lemma deselect_all_simps [simp]:
  "fst (deselect_all self w) = None"
  "host (snd (deselect_all self w)) = select_all_deselect (host w)"
  "calls (snd (deselect_all self w)) = calls w @ [SelectAllDeselect, UpdateEditMesh]"
  by (simp_all add: deselect_all_result)

lemma and_then_deselect_all [simp]:
  "and_then (deselect_all self w) f = f (snd (deselect_all self w))"
  by (simp add: deselect_all_result)

lemma filter_select_deselect [simp]: "filter select (map deselect xs) = []"
  by (induction xs) (simp_all add: deselect_def)

lemma all_clear_select_all_deselect [simp]: "all_clear (bm (select_all_deselect h))"
  by (simp add: all_clear_def select_all_deselect_def)

lemma getattr_bm_put_collection:
  "getattr_bm m k = Inr c \<Longrightarrow> getattr_bm (put_collection k c' m) k = Inr c'"
  by (auto simp: getattr_bm_def put_collection_def split: if_splits)

lemma all_clear_getattr:
  "all_clear m \<Longrightarrow> getattr_bm m k = Inr c \<Longrightarrow> filter select c = []"
  by (auto simp: all_clear_def getattr_bm_def split: if_splits)

lemma seq_position_less: "seq_position n i = Some p \<Longrightarrow> p < n"
  by (auto simp: seq_position_def Let_def split: if_splits)

lemma map_select_clear:
  "filter select c = [] \<Longrightarrow> map select c = replicate (length c) False"
  by (induction c) (auto split: if_splits)

lemma select_set_select [simp]: "select (set_select p) = True"
  by (simp add: set_select_def)

text \<open>The three outcomes of \<open>select_single_instance\<close>.\<close>

lemma select_single_instance_cases:
  obtains
    (no_collection) e where
      "getattr_bm (bm (host w)) (self_sel_type self) = Inl e"
      "select_single_instance self idx w = (Some e, w)"
  | (out_of_range) coll where
      "getattr_bm (bm (host w)) (self_sel_type self) = Inr coll"
      "seq_position (length coll) idx = None"
      "select_single_instance self idx w =
         (Some IndexError, w\<lparr>calls := calls w @ [EnsureLookupTable (self_sel_type self)]\<rparr>)"
  | (selected) coll p where
      "getattr_bm (bm (host w)) (self_sel_type self) = Inr coll"
      "seq_position (length coll) idx = Some p"
      "select_single_instance self idx w =
         (None, w\<lparr>host := (host w)\<lparr>bm := put_collection (self_sel_type self)
                                  (list_update coll p (set_select (coll ! p))) (bm (host w))\<rparr>,
                   calls := calls w @ [EnsureLookupTable (self_sel_type self),
                                       SetSelect (self_sel_type self) idx, UpdateEditMesh]\<rparr>)"
proof (cases "getattr_bm (bm (host w)) (self_sel_type self)")
  case (Inl e)
  then show ?thesis by (intro no_collection [of e]) (simp_all add: select_single_instance_def)
next
  case (Inr coll)
  show ?thesis
  proof (cases "seq_position (length coll) idx")
    case None
    with Inr show ?thesis
      by (intro out_of_range [of coll])
         (simp_all add: select_single_instance_def Let_def record_call_def)
  next
    case (Some p)
    with Inr show ?thesis
      by (intro selected [of coll p])
         (simp_all add: select_single_instance_def Let_def record_call_def)
  qed
qed

lemma only_selected_after_select:
  assumes "all_clear m" and "getattr_bm m k = Inr coll" and "seq_position (length coll) idx = Some p"
  shows "only_selected k idx (put_collection k (list_update coll p (set_select (coll ! p))) m)"
proof -
  have "map select coll = replicate (length coll) False"
    using assms(1,2) by (intro map_select_clear) (rule all_clear_getattr)
  then have "map select (list_update coll p (set_select (coll ! p))) =
             list_update (replicate (length coll) False) p True"
    by (simp add: map_update)
  then show ?thesis
    using assms(2,3) by (simp add: only_selected_def getattr_bm_put_collection [OF assms(2)])
qed

lemma invoke_action_not_callable:
  "\<not> is_callable (self_action self) \<Longrightarrow> invoke_action self w = (Some TypeError, w)"
  by (simp add: invoke_action_def)

lemma invoke_action_callable:
  "is_callable (self_action self) \<Longrightarrow>
   call (self_action self) (self_param_dict self) (host w) = (r, h) \<Longrightarrow>
   invoke_action self w = (r, w\<lparr>host := h, calls := calls w @ [Invoke (bm (host w))]\<rparr>)"
  by (simp add: invoke_action_def Let_def record_call_def)

lemma announce_simps [simp]:
  "host (announce self idx w) = host w"
  "calls (announce self idx w) = calls w"
  by (simp_all add: announce_def print_def)

lemma apply_loop_Cons:
  "apply_loop self (idx # rest) w =
     and_then (select_single_instance self idx w) (\<lambda>w1.
       and_then (invoke_action self (announce self idx w1)) (\<lambda>w3.
         apply_loop self rest (snd (deselect_all self w3))))"
  by (simp add: announce_def Let_def)

declare apply_loop.simps(2) [simp del]

lemma apply_loop_trace:
  assumes "all_clear (bm (host w))"
  shows "\<exists>evs. calls (snd (apply_loop self sel w)) = calls w @ evs \<and>
           list_all2 (only_selected (self_sel_type self))
             (take (length (invoked evs)) sel) (invoked evs) \<and>
           (fst (apply_loop self sel w) = None \<longrightarrow>
              length (invoked evs) = length sel \<and>
              select_calls evs = map (Pair (self_sel_type self)) sel)"
  using assms
proof (induction sel arbitrary: w)
  case Nil
  then show ?case by simp
next
  case (Cons idx rest)
  let ?k = "self_sel_type self"
  show ?case
  proof (cases rule: select_single_instance_cases [of w self idx])
    case (no_collection e)
    then show ?thesis by (simp add: apply_loop_Cons)
  next
    case (out_of_range coll)
    then show ?thesis by (simp add: apply_loop_Cons)
  next
    case (selected coll p)
    define m where "m = put_collection ?k (list_update coll p (set_select (coll ! p))) (bm (host w))"
    define w1 where "w1 = announce self idx
        (w\<lparr>host := (host w)\<lparr>bm := m\<rparr>,
           calls := calls w @ [EnsureLookupTable ?k, SetSelect ?k idx, UpdateEditMesh]\<rparr>)"
    have w1: "bm (host w1) = m"
      "calls w1 = calls w @ [EnsureLookupTable ?k, SetSelect ?k idx, UpdateEditMesh]"
      by (simp_all add: w1_def)
    have only: "only_selected ?k idx m"
      unfolding m_def using Cons.prems selected(1,2) by (rule only_selected_after_select)
    have step: "apply_loop self (idx # rest) w =
        and_then (invoke_action self w1) (\<lambda>w3. apply_loop self rest (snd (deselect_all self w3)))"
      by (simp add: apply_loop_Cons selected(3) w1_def m_def)
    show ?thesis
    proof (cases "is_callable (self_action self)")
      case False
      then show ?thesis
        by (simp add: step invoke_action_not_callable w1)
    next
      case True
      obtain r h where c: "call (self_action self) (self_param_dict self) (host w1) = (r, h)"
        by (cases "call (self_action self) (self_param_dict self) (host w1)")
      define w3 where "w3 = w1\<lparr>host := h, calls := calls w1 @ [Invoke (bm (host w1))]\<rparr>"
      have inv: "invoke_action self w1 = (r, w3)"
        unfolding w3_def using True c by (rule invoke_action_callable)
      have w3: "calls w3 = calls w @ [EnsureLookupTable ?k, SetSelect ?k idx, UpdateEditMesh, Invoke m]"
        by (simp add: w3_def w1)
      show ?thesis
      proof (cases r)
        case (Some e)
        then show ?thesis using only by (simp add: step inv w3)
      next
        case None
        define w4 where "w4 = snd (deselect_all self w3)"
        have w4: "calls w4 = calls w @ [EnsureLookupTable ?k, SetSelect ?k idx, UpdateEditMesh,
                     Invoke m, SelectAllDeselect, UpdateEditMesh]"
          by (simp add: w4_def w3)
        have "all_clear (bm (host w4))" by (simp add: w4_def)
        from Cons.IH [OF this] obtain evs where
          ih: "calls (snd (apply_loop self rest w4)) = calls w4 @ evs \<and>
            list_all2 (only_selected ?k) (take (length (invoked evs)) rest) (invoked evs) \<and>
            (fst (apply_loop self rest w4) = None \<longrightarrow>
               length (invoked evs) = length rest \<and> select_calls evs = map (Pair ?k) rest)"
          ..
        note evs = ih [THEN conjunct1] ih [THEN conjunct2, THEN conjunct1]
          ih [THEN conjunct2, THEN conjunct2]
        have res: "apply_loop self (idx # rest) w = apply_loop self rest w4"
          by (simp add: step inv None w4_def)
        let ?evs = "[EnsureLookupTable ?k, SetSelect ?k idx, UpdateEditMesh,
                     Invoke m, SelectAllDeselect, UpdateEditMesh] @ evs"
        have inv_evs: "invoked ?evs = m # invoked evs" by simp
        have sel_evs: "select_calls ?evs = (?k, idx) # select_calls evs" by simp
        have a: "calls (snd (apply_loop self rest w4)) = calls w @ ?evs"
          unfolding evs(1) w4 by simp
        have b: "list_all2 (only_selected ?k)
                   (take (length (invoked ?evs)) (idx # rest)) (invoked ?evs)"
          unfolding inv_evs using only evs(2) by simp
        have c: "fst (apply_loop self rest w4) = None \<longrightarrow>
                   length (invoked ?evs) = length (idx # rest) \<and>
                   select_calls ?evs = map (Pair ?k) (idx # rest)"
          unfolding inv_evs sel_evs using evs(3) by simp
        show ?thesis
          unfolding res by (intro exI [of _ ?evs] conjI a b c)
      qed
    qed
  qed
qed

lemma restore_loop_trace:
  "\<exists>evs. calls (snd (restore_loop self sel w)) = calls w @ evs \<and> invoked evs = [] \<and>
         (fst (restore_loop self sel w) = None \<longrightarrow>
            select_calls evs = map (Pair (self_sel_type self)) sel)"
proof (induction sel arbitrary: w)
  case Nil
  then show ?case by simp
next
  case (Cons idx rest)
  let ?k = "self_sel_type self"
  show ?case
  proof (cases rule: select_single_instance_cases [of w self idx])
    case (no_collection e)
    then show ?thesis by simp
  next
    case (out_of_range coll)
    then show ?thesis by simp
  next
    case (selected coll p)
    define w1 where "w1 = w\<lparr>host := (host w)\<lparr>bm := put_collection ?k
                                  (list_update coll p (set_select (coll ! p))) (bm (host w))\<rparr>,
                   calls := calls w @ [EnsureLookupTable ?k, SetSelect ?k idx, UpdateEditMesh]\<rparr>"
    have w1: "calls w1 = calls w @ [EnsureLookupTable ?k, SetSelect ?k idx, UpdateEditMesh]"
      by (simp add: w1_def)
    have res: "restore_loop self (idx # rest) w = restore_loop self rest w1"
      by (simp add: selected(3) w1_def)
    from Cons.IH [of w1] obtain evs where
      ih: "calls (snd (restore_loop self rest w1)) = calls w1 @ evs \<and> invoked evs = [] \<and>
        (fst (restore_loop self rest w1) = None \<longrightarrow> select_calls evs = map (Pair ?k) rest)"
      ..
    note evs = ih [THEN conjunct1] ih [THEN conjunct2, THEN conjunct1]
      ih [THEN conjunct2, THEN conjunct2]
    let ?evs = "[EnsureLookupTable ?k, SetSelect ?k idx, UpdateEditMesh] @ evs"
    have a: "calls (snd (restore_loop self rest w1)) = calls w @ ?evs"
      unfolding evs(1) w1 by simp
    have b: "invoked ?evs = []" using evs(2) by simp
    have c: "fst (restore_loop self rest w1) = None \<longrightarrow>
               select_calls ?evs = map (Pair ?k) (idx # rest)"
      using evs(3) by simp
    show ?thesis
      unfolding res by (intro exI [of _ ?evs] conjI a b c)
  qed
qed

lemma run_cases:
  obtains
    (no_collection) e where
      "getattr_bm (bm (host w)) (self_sel_type self) = Inl e"
      "run self w = (Some e, self, w)"
  | (empty) coll where
      "getattr_bm (bm (host w)) (self_sel_type self) = Inr coll"
      "filter select coll = []"
      "run self w = (Some UserWarning, self\<lparr>self_selection := []\<rparr>, w)"
  | (started) coll self' w1 where
      "getattr_bm (bm (host w)) (self_sel_type self) = Inr coll"
      "filter select coll \<noteq> []"
      "self' = self\<lparr>self_selection := map index (filter select coll)\<rparr>"
      "host w1 = host w" "calls w1 = calls w"
      "run self w = (fst (phases self' w1), self', snd (phases self' w1))"
proof (cases "getattr_bm (bm (host w)) (self_sel_type self)")
  case (Inl e)
  then show ?thesis
    by (intro no_collection [of e]) (simp_all add: run_def store_selection_def)
next
  case (Inr coll)
  show ?thesis
  proof (cases "filter select coll = []")
    case True
    with Inr show ?thesis
      by (intro empty [of coll]) (simp_all add: run_def store_selection_def)
  next
    case False
    let ?self = "self\<lparr>self_selection := map index (filter select coll)\<rparr>"
    let ?w1 = "if self_verbose self
               then print [PStr ''Selected '', PInt (int (length (filter select coll))),
                           PStr (self_sel_type self)] w
               else w"
    have "store_selection self w = (None, ?self, ?w1)"
      using Inr False by (simp add: store_selection_def Let_def)
    moreover have "restore_selection ?self = restore_loop ?self (self_selection ?self)"
      by (rule ext) (simp add: restore_selection_def)
    ultimately have "run self w = (fst (phases ?self ?w1), ?self, snd (phases ?self ?w1))"
      by (simp add: run_def phases_def execute_action_on_selection_def case_prod_beta)
    with Inr False show ?thesis
      by (intro started [of coll ?self ?w1]) (simp_all add: print_def)
  qed
qed

lemma phases_trace:
  "\<exists>evs. calls (snd (phases self w)) = calls w @ evs \<and>
     list_all2 (only_selected (self_sel_type self))
       (take (length (invoked evs)) (self_selection self)) (invoked evs) \<and>
     (fst (phases self w) = None \<longrightarrow>
        length (invoked evs) = length (self_selection self) \<and>
        select_calls evs =
          map (Pair (self_sel_type self)) (self_selection self @ self_selection self))"
proof -
  let ?k = "self_sel_type self" and ?sel = "self_selection self"
  define w2 where "w2 = snd (deselect_all self w)"
  have w2: "calls w2 = calls w @ [SelectAllDeselect, UpdateEditMesh]" "all_clear (bm (host w2))"
    by (simp_all add: w2_def)
  from apply_loop_trace [OF w2(2), of self ?sel] obtain evs where
    ih: "calls (snd (apply_loop self ?sel w2)) = calls w2 @ evs \<and>
         list_all2 (only_selected ?k) (take (length (invoked evs)) ?sel) (invoked evs) \<and>
         (fst (apply_loop self ?sel w2) = None \<longrightarrow>
            length (invoked evs) = length ?sel \<and> select_calls evs = map (Pair ?k) ?sel)"
    ..
  note evs = ih [THEN conjunct1] ih [THEN conjunct2, THEN conjunct1]
    ih [THEN conjunct2, THEN conjunct2]
  obtain r w3 where loop: "apply_loop self ?sel w2 = (r, w3)"
    by (cases "apply_loop self ?sel w2")
  show ?thesis
  proof (cases r)
    case (Some e)
    let ?evs = "[SelectAllDeselect, UpdateEditMesh] @ evs"
    have ph: "phases self w = (Some e, w3)"
      by (simp add: phases_def w2_def [symmetric] loop Some)
    have a: "calls (snd (phases self w)) = calls w @ ?evs"
      using evs(1) by (simp add: ph loop w2)
    have b: "list_all2 (only_selected ?k) (take (length (invoked ?evs)) ?sel) (invoked ?evs)"
      using evs(2) by simp
    have c: "fst (phases self w) = None \<longrightarrow>
        length (invoked ?evs) = length ?sel \<and> select_calls ?evs = map (Pair ?k) (?sel @ ?sel)"
      by (simp add: ph)
    show ?thesis by (intro exI [of _ ?evs] conjI a b c)
  next
    case None
    from restore_loop_trace [of self ?sel w3] obtain evs' where
      ih': "calls (snd (restore_loop self ?sel w3)) = calls w3 @ evs' \<and> invoked evs' = [] \<and>
        (fst (restore_loop self ?sel w3) = None \<longrightarrow> select_calls evs' = map (Pair ?k) ?sel)"
      ..
    note evs' = ih' [THEN conjunct1] ih' [THEN conjunct2, THEN conjunct1]
      ih' [THEN conjunct2, THEN conjunct2]
    let ?evs = "[SelectAllDeselect, UpdateEditMesh] @ evs @ evs'"
    have ph: "phases self w = restore_loop self ?sel w3"
      by (simp add: phases_def w2_def [symmetric] loop None)
    have w3: "calls w3 = calls w2 @ evs" using evs(1) by (simp add: loop)
    have l: "length (invoked evs) = length ?sel" "select_calls evs = map (Pair ?k) ?sel"
      using evs(3) by (simp_all add: loop None)
    have a: "calls (snd (phases self w)) = calls w @ ?evs"
      by (simp add: ph evs'(1) w3 w2)
    have b: "list_all2 (only_selected ?k) (take (length (invoked ?evs)) ?sel) (invoked ?evs)"
      using evs(2) evs'(2) by simp
    have c: "fst (phases self w) = None \<longrightarrow>
        length (invoked ?evs) = length ?sel \<and> select_calls ?evs = map (Pair ?k) (?sel @ ?sel)"
      using evs'(3) l evs'(2) by (simp add: ph)
    show ?thesis by (intro exI [of _ ?evs] conjI a b c)
  qed
qed

subsection \<open>The run on the example\<close>

lemmas eval_defs = run_def store_selection_def deselect_all_def execute_action_on_selection_def
  restore_selection_def select_single_instance_def invoke_action_def getattr_bm_def
  put_collection_def seq_position_def select_all_deselect_def deselect_def set_select_def
  record_call_def print_def Let_def

lemma run_example:
  "run faces_executor example_world =
     (None, faces_executor\<lparr>self_selection := [0, 2, 3]\<rparr>, example_final_world)"
  by (simp add: eval_defs apply_loop.simps faces_executor_def example_world_def example_mesh_def
        example_faces_def noop_operator_def only_face_def example_final_world_def)

lemma run_example_verbose:
  "run (faces_executor\<lparr>self_verbose := True\<rparr>) example_world =
     (None, faces_executor\<lparr>self_selection := [0, 2, 3], self_verbose := True\<rparr>,
      example_final_world\<lparr>console :=
        [[PStr ''Selected '', PInt 3, PStr ''faces''],
         [PStr ''Deselect all faces''],
         [PStr ''Executing '', PAction, PStr '' on faces0''],
         [PStr ''Deselect all faces''],
         [PStr ''Executing '', PAction, PStr '' on faces2''],
         [PStr ''Deselect all faces''],
         [PStr ''Executing '', PAction, PStr '' on faces3''],
         [PStr ''Deselect all faces'']]\<rparr>)"
  by (simp add: eval_defs apply_loop.simps faces_executor_def example_world_def example_mesh_def
        example_faces_def noop_operator_def only_face_def example_final_world_def
        str_int_def str_nat.simps)

subsection \<open>Independence of the verbose flag\<close>

lemma agree_print [simp]:
  "agree (print a w1) w2 = agree w1 w2"
  "agree w1 (print a w2) = agree w1 w2"
  by (simp_all add: agree_def print_def)

lemma and_then_agree:
  assumes "outcomes_agree r1 r2"
    and "\<And>w1 w2. agree w1 w2 \<Longrightarrow> outcomes_agree (f1 w1) (f2 w2)"
  shows "outcomes_agree (and_then r1 f1) (and_then r2 f2)"
proof -
  obtain e1 w1 where r1: "r1 = (e1, w1)" by (cases r1)
  obtain e2 w2 where r2: "r2 = (e2, w2)" by (cases r2)
  from assms(1) r1 r2 have e: "e1 = e2" and a: "agree w1 w2"
    by (simp_all add: outcomes_agree_def)
  show ?thesis
    using assms(2) [OF a] a
    by (cases e2) (simp_all add: r1 r2 e outcomes_agree_def)
qed

lemma deselect_all_agree:
  "agree w1 w2 \<Longrightarrow> outcomes_agree (deselect_all s1 w1) (deselect_all s2 w2)"
  by (simp add: outcomes_agree_def agree_def deselect_all_def Let_def record_call_def print_def)

lemma select_single_instance_agree:
  "agree w1 w2 \<Longrightarrow> self_sel_type s1 = self_sel_type s2 \<Longrightarrow>
   outcomes_agree (select_single_instance s1 idx w1) (select_single_instance s2 idx w2)"
  by (simp add: outcomes_agree_def agree_def select_single_instance_def Let_def record_call_def
           split: sum.splits option.splits)

lemma invoke_action_agree:
  "agree w1 w2 \<Longrightarrow> self_action s1 = self_action s2 \<Longrightarrow> self_param_dict s1 = self_param_dict s2 \<Longrightarrow>
   outcomes_agree (invoke_action s1 w1) (invoke_action s2 w2)"
  by (simp add: outcomes_agree_def agree_def invoke_action_def Let_def record_call_def
           split: prod.splits)

lemma apply_loop_agree:
  "agree w1 w2 \<Longrightarrow> same_config s1 s2 \<Longrightarrow>
   outcomes_agree (apply_loop s1 sel w1) (apply_loop s2 sel w2)"
proof (induction sel arbitrary: w1 w2)
  case Nil
  then show ?case by (simp add: outcomes_agree_def)
next
  case (Cons idx rest)
  from Cons.prems(2) have cfg: "self_sel_type s1 = self_sel_type s2"
    "self_action s1 = self_action s2" "self_param_dict s1 = self_param_dict s2"
    by (simp_all add: same_config_def)
  show ?case
    unfolding apply_loop.simps Let_def
  proof (rule and_then_agree [OF select_single_instance_agree [OF Cons.prems(1) cfg(1)]])
    fix a b assume ab: "agree a b"
    show "outcomes_agree
        (and_then (invoke_action s1 (if self_verbose s1
            then print [PStr ''Executing '', PAction, PStr ('' on '' @ self_sel_type s1 @ str_int idx)] a
            else a))
          (\<lambda>w3. and_then (deselect_all s1 w3) (apply_loop s1 rest)))
        (and_then (invoke_action s2 (if self_verbose s2
            then print [PStr ''Executing '', PAction, PStr ('' on '' @ self_sel_type s2 @ str_int idx)] b
            else b))
          (\<lambda>w3. and_then (deselect_all s2 w3) (apply_loop s2 rest)))"
    proof (rule and_then_agree)
      show "outcomes_agree
        (invoke_action s1 (if self_verbose s1
            then print [PStr ''Executing '', PAction, PStr ('' on '' @ self_sel_type s1 @ str_int idx)] a
            else a))
        (invoke_action s2 (if self_verbose s2
            then print [PStr ''Executing '', PAction, PStr ('' on '' @ self_sel_type s2 @ str_int idx)] b
            else b))"
        using ab cfg by (intro invoke_action_agree) simp_all
    next
      fix c d assume cd: "agree c d"
      show "outcomes_agree (and_then (deselect_all s1 c) (apply_loop s1 rest))
              (and_then (deselect_all s2 d) (apply_loop s2 rest))"
        by (rule and_then_agree [OF deselect_all_agree [OF cd]]) (rule Cons.IH [OF _ Cons.prems(2)])
    qed
  qed
qed

lemma restore_loop_agree:
  "agree w1 w2 \<Longrightarrow> self_sel_type s1 = self_sel_type s2 \<Longrightarrow>
   outcomes_agree (restore_loop s1 sel w1) (restore_loop s2 sel w2)"
proof (induction sel arbitrary: w1 w2)
  case Nil
  then show ?case by (simp add: outcomes_agree_def)
next
  case (Cons idx rest)
  show ?case
    unfolding restore_loop.simps
    by (rule and_then_agree [OF select_single_instance_agree [OF Cons.prems]])
       (rule Cons.IH [OF _ Cons.prems(2)])
qed

lemma store_selection_agree:
  "(case (store_selection (self\<lparr>self_verbose := va\<rparr>) w, store_selection (self\<lparr>self_verbose := vb\<rparr>) w) of
      ((r1, s1, w1), (r2, s2, w2)) \<Rightarrow> r1 = r2 \<and> same_config s1 s2 \<and> agree w1 w2)"
  by (simp add: store_selection_def Let_def same_config_def agree_def print_def split: sum.splits)

subsection \<open>A run with an operator that changes nothing\<close>

lemma deselect_set_select [simp]: "deselect (set_select p) = deselect p"
  by (simp add: deselect_def set_select_def)

lemma set_select_idem [simp]: "set_select (set_select p) = set_select p"
  by (simp add: set_select_def)

lemma deselect_unselected: "\<not> select p \<Longrightarrow> deselect p = p"
  by (simp add: deselect_def)

lemma set_select_deselect: "select p \<Longrightarrow> set_select (deselect p) = p"
  by (simp add: deselect_def set_select_def)

lemma map_deselect_clear: "filter select d = [] \<Longrightarrow> map deselect d = d"
  by (induction d) (auto simp: deselect_unselected split: if_splits)

lemma map_deselect_update:
  assumes "filter select d = []"
  shows "map deselect (list_update d p (set_select (d ! p))) = d"
proof (cases "p < length d")
  case True
  have "map deselect (list_update d p (set_select (d ! p))) =
        list_update (map deselect d) p (deselect (d ! p))"
    by (simp add: map_update)
  also have "\<dots> = list_update (map deselect d) p (map deselect d ! p)"
    using True by simp
  also have "\<dots> = map deselect d" by simp
  finally show ?thesis by (simp add: map_deselect_clear [OF assms])
next
  case False
  then have "list_update d p (set_select (d ! p)) = d" by (simp add: list_update_beyond)
  then show ?thesis by (simp add: map_deselect_clear [OF assms])
qed

lemma getattr_bm_select_all_deselect:
  "getattr_bm (bm h) k = Inr c \<Longrightarrow>
   getattr_bm (bm (select_all_deselect h)) k = Inr (map deselect c)"
  by (auto simp: getattr_bm_def select_all_deselect_def split: if_splits)

lemma seq_position_in_range:
  "0 \<le> i \<Longrightarrow> i < int n \<Longrightarrow> seq_position n i = Some (nat i)"
  by (simp add: seq_position_def)

lemma apply_loop_noop:
  assumes "getattr_bm (bm (host w)) (self_sel_type self) = Inr d"
    and "filter select d = []"
    and "in_range d xs"
    and "is_callable (self_action self)"
    and "no_op_equivalent (self_action self) (self_sel_type self)"
  shows "fst (apply_loop self xs w) = None \<and>
         getattr_bm (bm (host (snd (apply_loop self xs w)))) (self_sel_type self) = Inr d"
  using assms(1,3)
proof (induction xs arbitrary: w)
  case Nil
  then show ?case by simp
next
  case (Cons idx rest)
  let ?k = "self_sel_type self"
  from Cons.prems(2) have idx: "0 \<le> idx" "idx < int (length d)" and rest: "in_range d rest"
    by (simp_all add: in_range_def)
  let ?d1 = "list_update d (nat idx) (set_select (d ! nat idx))"
  define w1 where "w1 = announce self idx
     (w\<lparr>host := (host w)\<lparr>bm := put_collection ?k ?d1 (bm (host w))\<rparr>,
        calls := calls w @ [EnsureLookupTable ?k, SetSelect ?k idx, UpdateEditMesh]\<rparr>)"
  have sel: "select_single_instance self idx w =
     (None, w\<lparr>host := (host w)\<lparr>bm := put_collection ?k ?d1 (bm (host w))\<rparr>,
        calls := calls w @ [EnsureLookupTable ?k, SetSelect ?k idx, UpdateEditMesh]\<rparr>)"
    using Cons.prems(1) idx
    by (simp add: select_single_instance_def Let_def record_call_def seq_position_in_range)
  have g1: "getattr_bm (bm (host w1)) ?k = Inr ?d1"
    by (simp add: w1_def getattr_bm_put_collection [OF Cons.prems(1)])
  obtain r h where c: "call (self_action self) (self_param_dict self) (host w1) = (r, h)"
    by (cases "call (self_action self) (self_param_dict self) (host w1)")
  from assms(5) have "fst (call (self_action self) (self_param_dict self) (host w1)) = None"
    and "getattr_bm (bm (snd (call (self_action self) (self_param_dict self) (host w1)))) ?k =
         getattr_bm (bm (host w1)) ?k"
    by (simp_all add: no_op_equivalent_def)
  with c g1 have r: "r = None" and gh: "getattr_bm (bm h) ?k = Inr ?d1" by simp_all
  define w3 where "w3 = w1\<lparr>host := h, calls := calls w1 @ [Invoke (bm (host w1))]\<rparr>"
  have inv: "invoke_action self w1 = (None, w3)"
    unfolding w3_def using invoke_action_callable [OF assms(4) c] r by simp
  define w4 where "w4 = snd (deselect_all self w3)"
  have "getattr_bm (bm (host w4)) ?k = Inr (map deselect ?d1)"
    using gh by (simp add: w4_def w3_def getattr_bm_select_all_deselect)
  then have g4: "getattr_bm (bm (host w4)) ?k = Inr d"
    by (simp only: map_deselect_update [OF assms(2)])
  have step: "apply_loop self (idx # rest) w = apply_loop self rest w4"
    by (simp add: apply_loop_Cons sel w1_def [symmetric] inv w4_def)
  show ?case
    unfolding step by (rule Cons.IH [OF g4 rest])
qed

lemma restore_loop_selects:
  assumes "getattr_bm (bm (host w)) (self_sel_type self) = Inr d" and "in_range d xs"
  shows "fst (restore_loop self xs w) = None \<and>
    (\<exists>d'. getattr_bm (bm (host (snd (restore_loop self xs w)))) (self_sel_type self) = Inr d' \<and>
       length d' = length d \<and>
       (\<forall>j<length d. d' ! j = (if int j \<in> set xs then set_select (d ! j) else d ! j)))"
  using assms
proof (induction xs arbitrary: w d)
  case Nil
  then show ?case by simp
next
  case (Cons idx rest)
  let ?k = "self_sel_type self"
  from Cons.prems(2) have idx: "0 \<le> idx" "idx < int (length d)" and rest: "in_range d rest"
    by (simp_all add: in_range_def)
  let ?d1 = "list_update d (nat idx) (set_select (d ! nat idx))"
  define w1 where "w1 =
     w\<lparr>host := (host w)\<lparr>bm := put_collection ?k ?d1 (bm (host w))\<rparr>,
        calls := calls w @ [EnsureLookupTable ?k, SetSelect ?k idx, UpdateEditMesh]\<rparr>"
  have sel: "select_single_instance self idx w = (None, w1)"
    using Cons.prems(1) idx
    by (simp add: w1_def select_single_instance_def Let_def record_call_def seq_position_in_range)
  have g1: "getattr_bm (bm (host w1)) ?k = Inr ?d1"
    by (simp add: w1_def getattr_bm_put_collection [OF Cons.prems(1)])
  have rest1: "in_range ?d1 rest" using rest by (simp add: in_range_def)
  have step: "restore_loop self (idx # rest) w = restore_loop self rest w1"
    by (simp add: sel)
  from Cons.IH [OF g1 rest1] obtain d' where
    ok: "fst (restore_loop self rest w1) = None"
    and d': "getattr_bm (bm (host (snd (restore_loop self rest w1)))) ?k = Inr d'"
      "length d' = length ?d1"
      "\<forall>j<length ?d1. d' ! j = (if int j \<in> set rest then set_select (?d1 ! j) else ?d1 ! j)"
    by auto
  have "\<forall>j<length d. d' ! j = (if int j \<in> set (idx # rest) then set_select (d ! j) else d ! j)"
  proof (intro allI impI)
    fix j assume j: "j < length d"
    with d'(3) have e: "d' ! j = (if int j \<in> set rest then set_select (?d1 ! j) else ?d1 ! j)"
      by simp
    show "d' ! j = (if int j \<in> set (idx # rest) then set_select (d ! j) else d ! j)"
    proof (cases "j = nat idx")
      case True
      with idx j have "?d1 ! j = set_select (d ! j)" "int j = idx" by simp_all
      with e show ?thesis by simp
    next
      case False
      with idx have "?d1 ! j = d ! j" "int j \<noteq> idx" by auto
      with e show ?thesis by simp
    qed
  qed
  with ok d'(1,2) show ?case unfolding step by simp
qed

lemma valid_indices_nth:
  assumes "map index c = map int [0..<length c]" and "j < length c"
  shows "index (c ! j) = int j"
proof -
  have "index (c ! j) = map index c ! j" using assms(2) by simp
  also have "\<dots> = map int [0..<length c] ! j" by (simp only: assms(1))
  also have "\<dots> = int j" using assms(2) by simp
  finally show ?thesis .
qed

lemma captured_in_range:
  assumes "map index c = map int [0..<length c]"
  shows "in_range (map deselect c) (map index (filter select c))"
proof -
  have "0 \<le> index e \<and> index e < int (length c)" if "e \<in> set c" for e
  proof -
    from that obtain j where j: "j < length c" "e = c ! j" by (auto simp: in_set_conv_nth)
    with valid_indices_nth [OF assms j(1)] show ?thesis by simp
  qed
  then show ?thesis by (auto simp: in_range_def list_all_iff)
qed

lemma captured_iff_selected:
  assumes "map index c = map int [0..<length c]" and "j < length c"
  shows "int j \<in> set (map index (filter select c)) \<longleftrightarrow> select (c ! j)"
proof
  assume "int j \<in> set (map index (filter select c))"
  then obtain e where e: "e \<in> set c" "select e" "index e = int j" by auto
  from e(1) obtain i where i: "i < length c" "e = c ! i" by (auto simp: in_set_conv_nth)
  with valid_indices_nth [OF assms(1) i(1)] e(3) have "i = j" by simp
  with i e(2) show "select (c ! j)" by simp
next
  assume "select (c ! j)"
  moreover have "c ! j \<in> set c" using assms(2) by simp
  moreover have "index (c ! j) = int j" by (rule valid_indices_nth [OF assms])
  ultimately show "int j \<in> set (map index (filter select c))" by force
qed

lemma restored_is_original:
  assumes "map index c = map int [0..<length c]"
    and "length d' = length c"
    and "\<forall>j<length c. d' ! j =
           (if int j \<in> set (map index (filter select c))
            then set_select (map deselect c ! j) else map deselect c ! j)"
  shows "d' = c"
proof (rule nth_equalityI)
  show "length d' = length c" by (rule assms(2))
next
  fix j assume "j < length d'"
  with assms(2) have j: "j < length c" by simp
  show "d' ! j = c ! j"
  proof (cases "select (c ! j)")
    case True
    with assms(3) j captured_iff_selected [OF assms(1) j] show ?thesis
      by (simp add: set_select_deselect)
  next
    case False
    with assms(3) j captured_iff_selected [OF assms(1) j] show ?thesis
      by (simp add: deselect_unselected)
  qed
qed

lemma phases_noop:
  assumes "getattr_bm (bm (host w)) (self_sel_type self) = Inr coll"
    and "valid_indices coll"
    and "self_selection self = map index (filter select coll)"
    and "is_callable (self_action self)"
    and "no_op_equivalent (self_action self) (self_sel_type self)"
  shows "fst (phases self w) = None \<and>
         getattr_bm (bm (host (snd (phases self w)))) (self_sel_type self) = Inr coll"
proof -
  let ?k = "self_sel_type self" and ?sel = "map index (filter select coll)"
  let ?d = "map deselect coll"
  from assms(2) have valid: "map index coll = map int [0..<length coll]"
    by (simp add: valid_indices_def)
  define w2 where "w2 = snd (deselect_all self w)"
  have g2: "getattr_bm (bm (host w2)) ?k = Inr ?d"
    using assms(1) by (simp add: w2_def getattr_bm_select_all_deselect)
  have range: "in_range ?d ?sel" by (rule captured_in_range [OF valid])
  define w3 where "w3 = snd (apply_loop self ?sel w2)"
  from apply_loop_noop [OF g2 _ range assms(4,5)]
  have loop: "fst (apply_loop self ?sel w2) = None" and g3: "getattr_bm (bm (host w3)) ?k = Inr ?d"
    by (simp_all add: w3_def)
  have "apply_loop self ?sel w2 = (None, w3)"
    using loop by (simp add: w3_def prod_eq_iff)
  then have ph: "phases self w = restore_loop self ?sel w3"
    by (simp add: phases_def assms(3) w2_def [symmetric])
  from restore_loop_selects [OF g3 range] obtain d' where
    ok: "fst (restore_loop self ?sel w3) = None"
    and d': "getattr_bm (bm (host (snd (restore_loop self ?sel w3)))) ?k = Inr d'"
      "length d' = length ?d"
      "\<forall>j<length ?d. d' ! j = (if int j \<in> set ?sel then set_select (?d ! j) else ?d ! j)"
    by auto
  have "d' = coll"
    using d'(2,3) by (intro restored_is_original [OF valid]) simp_all
  with ok d'(1) show ?thesis by (simp add: ph)
qed

subsection \<open>Splitting the apply loop\<close>

lemma and_then_assoc:
  "and_then (and_then r f) g = and_then r (\<lambda>w. and_then (f w) g)"
  by (cases r) (simp add: and_then_def split: option.splits)

lemma apply_loop_append:
  "apply_loop self (pre @ post) w = and_then (apply_loop self pre w) (apply_loop self post)"
proof (induction pre arbitrary: w)
  case Nil
  then show ?case by simp
next
  case (Cons idx pre)
  show ?case
    by (simp add: apply_loop_Cons and_then_assoc Cons.IH)
qed

lemma store_selection_calls:
  "store_selection self w = (r, self', w1) \<Longrightarrow>
   host w1 = host w \<and> calls w1 = calls w \<and> self_sel_type self' = self_sel_type self"
  by (auto simp: store_selection_def Let_def print_def split: sum.splits if_splits)

section \<open>Construction\<close>

text \<open>
  C5. Whenever the active object is not in edit mode, construction raises the
  environment error and leaves the world as it was: no host call is made,
  nothing is mutated, and neither the selection kind nor the action is looked
  at, whatever they are.
\<close>

theorem init_requires_edit_mode:
  "mode (host w) \<noteq> ''EDIT'' \<Longrightarrow> init sel_type action param_dict verbose w = (Inl EnvironmentError, w)"
  by (simp add: init_def)

theorem init_requires_edit_mode_witness:
  "mode (host object_mode_world) \<noteq> ''EDIT'' \<and>
   validate_selection_type \<lparr>self_selection = [], self_sel_type = ''polys'', self_action = not_callable,
                    self_param_dict = [], self_verbose = True\<rparr> = Some NameError \<and>
   validate_action \<lparr>self_selection = [], self_sel_type = ''polys'', self_action = not_callable,
                    self_param_dict = [], self_verbose = True\<rparr> = Some TypeError \<and>
   init ''polys'' not_callable [] True object_mode_world = (Inl EnvironmentError, object_mode_world)"
  using init_requires_edit_mode [of object_mode_world "''polys''" not_callable "[]" True]
  by (simp add: object_mode_world_def validate_selection_type_def validate_action_def not_callable_def)

text \<open>
  C6, as amended. For every selection kind outside verts, edges and faces,
  construction fails before any mesh read and leaves the world untouched; the
  error is the naming error when the host is in edit mode, and the environment
  error of the edit-mode check, which runs first, otherwise.
\<close>

theorem init_invalid_selection_type:
  "sel_type \<notin> set [''verts'', ''edges'', ''faces''] \<Longrightarrow>
   init sel_type action param_dict verbose w =
     (Inl (if mode (host w) = ''EDIT'' then NameError else EnvironmentError), w)"
  by (simp add: init_def validate_selection_type_def)

theorem init_invalid_selection_type_witness:
  "''polys'' \<notin> set [''verts'', ''edges'', ''faces''] \<and>
   mode (host example_world) = ''EDIT'' \<and>
   init ''polys'' noop_operator [] False example_world = (Inl NameError, example_world) \<and>
   init ''polys'' noop_operator [] False object_mode_world =
     (Inl EnvironmentError, object_mode_world)"
  using init_invalid_selection_type [of "''polys''" noop_operator "[]" False example_world]
    init_invalid_selection_type [of "''polys''" noop_operator "[]" False object_mode_world]
  by (simp add: example_world_def object_mode_world_def)

text \<open>
  The claim as stated promises the naming error for every invalid kind; outside
  edit mode an invalid kind meets the environment error instead.
\<close>

theorem init_invalid_selection_type_counterexample:
  "''polys'' \<notin> set [''verts'', ''edges'', ''faces''] \<and>
   fst (init ''polys'' noop_operator [] False object_mode_world) = Inl EnvironmentError \<and>
   fst (init ''polys'' noop_operator [] False object_mode_world) \<noteq> Inl NameError"
  by (simp add: init_def object_mode_world_def)

text \<open>
  C7, as amended. For every action that is not callable, or whose identifier's
  first path segment is not \<open>mesh\<close>, construction fails and leaves the world
  untouched; the error is the type error when the host is in edit mode and the
  selection kind is valid, and otherwise the error of the earlier check that
  fails (environment error, then naming error).
\<close>

theorem init_invalid_action:
  assumes "\<not> is_callable action \<or>
     (\<exists>name. idname_py action = Some name \<and> hd (split (CHR ''.'') name) \<noteq> ''mesh'')"
  shows "init sel_type action param_dict verbose w =
     (Inl (if mode (host w) \<noteq> ''EDIT'' then EnvironmentError
           else if sel_type \<notin> set [''verts'', ''edges'', ''faces''] then NameError
           else TypeError), w)"
proof -
  let ?self = "\<lparr>self_selection = [], self_sel_type = sel_type, self_action = action,
                self_param_dict = param_dict, self_verbose = verbose\<rparr>"
  have "validate_action ?self = Some TypeError"
    using assms by (intro validate_action_TypeError) simp
  then show ?thesis
    by (simp add: init_def Let_def validate_selection_type_def)
qed

theorem init_invalid_action_witness:
  "is_callable not_callable = False \<and>
   idname_py object_operator = Some ''object.join'' \<and>
   hd (split (CHR ''.'') ''object.join'') = ''object'' \<and>
   init ''faces'' not_callable [] False example_world = (Inl TypeError, example_world) \<and>
   init ''faces'' object_operator [] False example_world = (Inl TypeError, example_world) \<and>
   init ''polys'' object_operator [] False example_world = (Inl NameError, example_world)"
  using init_invalid_action [of not_callable "''faces''" "[]" False example_world]
    init_invalid_action [of object_operator "''faces''" "[]" False example_world]
    init_invalid_action [of object_operator "''polys''" "[]" False example_world]
  by (simp add: example_world_def not_callable_def object_operator_def)

text \<open>
  The claim as stated promises the type error for every such action; outside
  edit mode a non-callable action meets the environment error instead.
\<close>

theorem init_invalid_action_counterexample:
  "is_callable not_callable = False \<and>
   fst (init ''faces'' not_callable [] False object_mode_world) = Inl EnvironmentError \<and>
   fst (init ''faces'' not_callable [] False object_mode_world) \<noteq> Inl TypeError"
  by (simp add: init_def object_mode_world_def not_callable_def)

section \<open>The run\<close>

text \<open>
  C1. Let the collection of the configured kind have valid indices and at
  least one selected element, and let the operator be callable and
  no-op-equivalent. Then run completes, the collection of the configured kind
  is afterwards what it was before (so the selected set is the initial one),
  the stored snapshot is the captured selection, and the per-element
  selections made are the captured indices in captured order, once by the
  apply loop and once more by the restore phase.
\<close>

theorem noop_run_restores_selection:
  assumes "getattr_bm (bm (host w)) (self_sel_type self) = Inr coll"
    and "valid_indices coll"
    and "filter select coll \<noteq> []"
    and "is_callable (self_action self)"
    and "no_op_equivalent (self_action self) (self_sel_type self)"
  shows "(case run self w of (r, self', w') \<Rightarrow>
           r = None \<and>
           getattr_bm (bm (host w')) (self_sel_type self) = Inr coll \<and>
           self_selection self' = map index (filter select coll) \<and>
           select_calls (new_calls w w') =
             map (Pair (self_sel_type self)) (self_selection self' @ self_selection self'))"
proof (cases rule: run_cases [of w self])
  case (no_collection e)
  with assms(1) show ?thesis by simp
next
  case (empty c)
  with assms(1,3) show ?thesis by simp
next
  case (started c s w1)
  from started(1) assms(1) have c: "c = coll" by simp
  have cfg: "self_sel_type s = self_sel_type self" "self_action s = self_action self"
    "self_selection s = map index (filter select coll)"
    by (simp_all add: started(3) c)
  have g1: "getattr_bm (bm (host w1)) (self_sel_type s) = Inr coll"
    using assms(1) by (simp add: started(4) cfg)
  from phases_noop [OF g1 assms(2) cfg(3)] assms(4,5)
  have ok: "fst (phases s w1) = None"
    and g: "getattr_bm (bm (host (snd (phases s w1)))) (self_sel_type self) = Inr coll"
    by (simp_all add: cfg)
  from phases_trace [of s w1] obtain evs where
    ih: "calls (snd (phases s w1)) = calls w1 @ evs \<and>
     list_all2 (only_selected (self_sel_type s))
       (take (length (invoked evs)) (self_selection s)) (invoked evs) \<and>
     (fst (phases s w1) = None \<longrightarrow>
        length (invoked evs) = length (self_selection s) \<and>
        select_calls evs =
          map (Pair (self_sel_type s)) (self_selection s @ self_selection s))"
    ..
  have n: "new_calls w (snd (phases s w1)) = evs"
    using ih started(5) by (simp add: new_calls_def)
  have "select_calls evs = map (Pair (self_sel_type s)) (self_selection s @ self_selection s)"
    using ih ok by simp
  with ok g show ?thesis
    by (simp add: started(6) n cfg)
qed

theorem noop_run_restores_selection_witness:
  "valid_indices example_faces \<and> filter select example_faces \<noteq> [] \<and>
   no_op_equivalent noop_operator ''faces'' \<and>
   run faces_executor example_world =
     (None, faces_executor\<lparr>self_selection := [0, 2, 3]\<rparr>, example_final_world) \<and>
   getattr_bm (bm (host example_world)) ''faces'' = Inr example_faces \<and>
   getattr_bm (bm (host example_final_world)) ''faces'' = Inr example_faces \<and>
   select_calls (new_calls example_world example_final_world) =
     [(''faces'', 0), (''faces'', 2), (''faces'', 3), (''faces'', 0), (''faces'', 2), (''faces'', 3)]"
proof -
  have k: "self_sel_type faces_executor = ''faces''" "self_action faces_executor = noop_operator"
    by (simp_all add: faces_executor_def)
  have h1: "getattr_bm (bm (host example_world)) (self_sel_type faces_executor) = Inr example_faces"
    by (simp add: k getattr_bm_def example_world_def example_mesh_def)
  have h2: "valid_indices example_faces"
    by (simp add: valid_indices_def example_faces_def upt_rec)
  have h3: "filter select example_faces \<noteq> []"
    by (simp add: example_faces_def)
  have h4: "is_callable (self_action faces_executor)"
    by (simp add: k noop_operator_def)
  have h5: "no_op_equivalent (self_action faces_executor) (self_sel_type faces_executor)"
    by (simp add: k no_op_equivalent_def noop_operator_def)
  have s: "map index (filter select example_faces) = [0, 2, 3]"
    by (simp add: example_faces_def)
  from noop_run_restores_selection [OF h1 h2 h3 h4 h5] h1 h2 h3 h5 show ?thesis
    unfolding run_example by (simp add: k s)
qed

text \<open>
  C2. Whenever the configured operator is invoked during a run, the edit mesh
  it finds has exactly one element of the configured kind selected, the one
  that the lookup by the current captured index finds: the invocations of a
  run, in order, match the captured selection, in order. A run that completes
  has invoked the operator once per captured index.
\<close>

theorem operator_sees_single_selection:
  "(case run self w of (r, self', w') \<Rightarrow>
      list_all2 (only_selected (self_sel_type self))
        (take (length (invoked (new_calls w w'))) (self_selection self'))
        (invoked (new_calls w w')) \<and>
      (r = None \<longrightarrow> length (invoked (new_calls w w')) = length (self_selection self')))"
proof (cases rule: run_cases [of w self])
  case (no_collection e)
  then show ?thesis by (simp add: new_calls_def)
next
  case (empty coll)
  then show ?thesis by (simp add: new_calls_def)
next
  case (started coll self' w1)
  from phases_trace [of self' w1] obtain evs where
    ih: "calls (snd (phases self' w1)) = calls w1 @ evs \<and>
     list_all2 (only_selected (self_sel_type self'))
       (take (length (invoked evs)) (self_selection self')) (invoked evs) \<and>
     (fst (phases self' w1) = None \<longrightarrow>
        length (invoked evs) = length (self_selection self') \<and>
        select_calls evs =
          map (Pair (self_sel_type self')) (self_selection self' @ self_selection self'))"
    ..
  have k: "self_sel_type self' = self_sel_type self" by (simp add: started(3))
  have n: "new_calls w (snd (phases self' w1)) = evs"
    using ih started(5) by (simp add: new_calls_def)
  show ?thesis
    using ih by (simp add: started(6) n k)
qed

theorem operator_sees_single_selection_witness:
  "run faces_executor example_world =
     (None, faces_executor\<lparr>self_selection := [0, 2, 3]\<rparr>, example_final_world) \<and>
   invoked (new_calls example_world example_final_world) =
     [only_face 0, only_face 2, only_face 3] \<and>
   list_all2 (only_selected ''faces'') [0, 2, 3] [only_face 0, only_face 2, only_face 3]"
proof -
  have a: "invoked (new_calls example_world example_final_world) =
           [only_face 0, only_face 2, only_face 3]"
    by (simp add: new_calls_def example_final_world_def example_world_def)
  have k: "self_sel_type faces_executor = ''faces''"
    by (simp add: faces_executor_def)
  from operator_sees_single_selection [of faces_executor example_world]
  have "list_all2 (only_selected ''faces'') [0, 2, 3] [only_face 0, only_face 2, only_face 3]"
    unfolding run_example by (simp add: a k)
  with a run_example show ?thesis by simp
qed

text \<open>
  C3. When no element of the configured kind is selected at capture time, run
  raises the empty-selection warning and the world is exactly as before: the
  host state is unchanged, no call into the host has been made (no deselect,
  no selection of an element, no invocation of the operator) and nothing has
  been printed.
\<close>

theorem run_empty_selection:
  "getattr_bm (bm (host w)) (self_sel_type self) = Inr coll \<Longrightarrow> filter select coll = [] \<Longrightarrow>
   run self w = (Some UserWarning, self\<lparr>self_selection := []\<rparr>, w)"
  by (simp add: run_def store_selection_def)

theorem run_empty_selection_witness:
  "getattr_bm (bm (host example_world)) (self_sel_type verts_executor) =
     Inr [\<lparr>index = 0, select = False\<rparr>] \<and>
   filter select [\<lparr>index = 0, select = False\<rparr>] = [] \<and>
   run verts_executor example_world =
     (Some UserWarning, verts_executor\<lparr>self_selection := []\<rparr>, example_world)"
proof -
  have c: "getattr_bm (bm (host example_world)) (self_sel_type verts_executor) =
           Inr [\<lparr>index = 0, select = False\<rparr>]"
    by (simp add: getattr_bm_def example_world_def example_mesh_def verts_executor_def)
  have e: "filter select [\<lparr>index = 0, select = False\<rparr>] = []" by simp
  from c e run_empty_selection [OF c e] show ?thesis by simp
qed

text \<open>
  C4. Let the selection be stored, the iterations for the indices \<open>pre\<close> be
  completed, the element for the next index \<open>idx\<close> be selected, and let the
  operator raise \<open>e\<close> on the host state so reached. Then run raises \<open>e\<close>, and
  the world it leaves is the world of that moment: the host state is the one
  the operator left, the invocation is the last call into the host, and the
  only per-element selections made are those for \<open>pre\<close> and \<open>idx\<close>. Neither the
  deselect of this iteration, nor an iteration for \<open>rest\<close>, nor the restore
  phase has run.
\<close>

theorem operator_exception_aborts_run:
  assumes "store_selection self w = (None, self', w1)"
    and "self_selection self' = pre @ idx # rest"
    and "apply_loop self' pre (snd (deselect_all self' w1)) = (None, w2)"
    and "select_single_instance self' idx w2 = (None, w3)"
    and "is_callable (self_action self')"
    and "call (self_action self') (self_param_dict self') (host w3) = (Some e, h)"
  shows "(case run self w of (r, s, w') \<Rightarrow>
           r = Some e \<and> s = self' \<and>
           w' = (announce self' idx w3)\<lparr>host := h, calls := calls w3 @ [Invoke (bm (host w3))]\<rparr> \<and>
           select_calls (new_calls w w') = map (Pair (self_sel_type self)) (pre @ [idx]) \<and>
           length (invoked (new_calls w w')) = Suc (length pre))"
proof -
  let ?k = "self_sel_type self'"
  let ?w' = "(announce self' idx w3)\<lparr>host := h, calls := calls w3 @ [Invoke (bm (host w3))]\<rparr>"
  define w0 where "w0 = snd (deselect_all self' w1)"
  from store_selection_calls [OF assms(1)]
  have w1: "calls w1 = calls w" and k: "?k = self_sel_type self" by simp_all
  have w0: "calls w0 = calls w @ [SelectAllDeselect, UpdateEditMesh]" "all_clear (bm (host w0))"
    by (simp_all add: w0_def w1)
  from apply_loop_trace [OF w0(2), of self' pre] obtain evs where
    ih: "calls (snd (apply_loop self' pre w0)) = calls w0 @ evs \<and>
         list_all2 (only_selected ?k) (take (length (invoked evs)) pre) (invoked evs) \<and>
         (fst (apply_loop self' pre w0) = None \<longrightarrow>
            length (invoked evs) = length pre \<and> select_calls evs = map (Pair ?k) pre)"
    ..
  from assms(3) have pre: "apply_loop self' pre w0 = (None, w2)" by (simp add: w0_def)
  from ih pre have w2: "calls w2 = calls w0 @ evs" "length (invoked evs) = length pre"
    "select_calls evs = map (Pair ?k) pre" by simp_all
  have w3: "calls w3 = calls w2 @ [EnsureLookupTable ?k, SetSelect ?k idx, UpdateEditMesh]"
    using assms(4) by (cases rule: select_single_instance_cases [of w2 self' idx]) auto
  have inv: "invoke_action self' (announce self' idx w3) = (Some e, ?w')"
    using invoke_action_callable [OF assms(5), of "announce self' idx w3" "Some e" h] assms(6)
    by simp
  have "apply_loop self' (idx # rest) w2 = (Some e, ?w')"
    by (simp add: apply_loop_Cons assms(4) inv)
  then have "apply_loop self' (pre @ idx # rest) w0 = (Some e, ?w')"
    by (simp add: apply_loop_append pre)
  then have "execute_action_on_selection self' w0 = (Some e, ?w')"
    by (simp add: execute_action_on_selection_def assms(2))
  then have run: "run self w = (Some e, self', ?w')"
    by (simp add: run_def assms(1) w0_def)
  have calls: "calls ?w' = calls w @ ([SelectAllDeselect, UpdateEditMesh] @ evs @
      [EnsureLookupTable ?k, SetSelect ?k idx, UpdateEditMesh, Invoke (bm (host w3))])"
    by (simp add: w3 w2 w0)
  have n: "new_calls w ?w' = [SelectAllDeselect, UpdateEditMesh] @ evs @
      [EnsureLookupTable ?k, SetSelect ?k idx, UpdateEditMesh, Invoke (bm (host w3))]"
    unfolding new_calls_def calls by simp
  have a: "select_calls (new_calls w ?w') = map (Pair (self_sel_type self)) (pre @ [idx])"
    unfolding n by (simp add: w2 k)
  have b: "length (invoked (new_calls w ?w')) = Suc (length pre)"
    unfolding n by (simp add: w2)
  show ?thesis
    unfolding run using a b by simp
qed

theorem operator_exception_aborts_run_witness:
  "run raising_executor example_world =
     (Some (OperatorError ''cancelled''), raising_executor\<lparr>self_selection := [0, 2, 3]\<rparr>,
      aborted_world) \<and>
   map select (faces (bm (host aborted_world))) = [False, False, True, False] \<and>
   select_calls (new_calls example_world aborted_world) = [(''faces'', 0), (''faces'', 2)] \<and>
   length (invoked (new_calls example_world aborted_world)) = 2"
proof -
  let ?s = "raising_executor\<lparr>self_selection := [0, 2, 3]\<rparr>"
  let ?w2 = "\<lparr>host = \<lparr>mode = ''EDIT'', bm = only_face 4\<rparr>,
      calls =
        [SelectAllDeselect, UpdateEditMesh,
         EnsureLookupTable ''faces'', SetSelect ''faces'' 0, UpdateEditMesh,
         Invoke (only_face 0), SelectAllDeselect, UpdateEditMesh],
      console = []\<rparr>"
  let ?w3 = "\<lparr>host = \<lparr>mode = ''EDIT'', bm = only_face 2\<rparr>,
      calls =
        [SelectAllDeselect, UpdateEditMesh,
         EnsureLookupTable ''faces'', SetSelect ''faces'' 0, UpdateEditMesh,
         Invoke (only_face 0), SelectAllDeselect, UpdateEditMesh,
         EnsureLookupTable ''faces'', SetSelect ''faces'' 2, UpdateEditMesh],
      console = []\<rparr>"
  note ex = raising_executor_def faces_executor_def raising_operator_def example_world_def
    example_mesh_def example_faces_def only_face_def
  have h1: "store_selection raising_executor example_world = (None, ?s, example_world)"
    by (simp add: eval_defs ex)
  have h2: "self_selection ?s = [0] @ 2 # [3]" by simp
  have h3: "apply_loop ?s [0] (snd (deselect_all ?s example_world)) = (None, ?w2)"
    by (simp add: eval_defs apply_loop.simps ex)
  have h4: "select_single_instance ?s 2 ?w2 = (None, ?w3)"
    by (simp add: eval_defs ex)
  have h5: "is_callable (self_action ?s)" by (simp add: ex)
  have h6: "call (self_action ?s) (self_param_dict ?s) (host ?w3) =
              (Some (OperatorError ''cancelled''), host ?w3)"
    by (simp add: ex)
  have w: "(announce ?s 2 ?w3)\<lparr>host := host ?w3, calls := calls ?w3 @ [Invoke (bm (host ?w3))]\<rparr> =
           aborted_world"
    by (simp add: announce_def aborted_world_def ex)
  have k: "self_sel_type raising_executor = ''faces''" by (simp add: ex)
  have f: "map select (faces (bm (host aborted_world))) = [False, False, True, False]"
    by (simp add: aborted_world_def only_face_def)
  from operator_exception_aborts_run [OF h1 h2 h3 h4 h5 h6] f show ?thesis
    unfolding w k by (simp split: prod.splits)
qed

text \<open>
  C8, as amended. For every completed run, the snapshot is captured at the
  start of the run (the indices of the selected elements of the configured
  kind, in iteration order), it is what the apply loop and then the restore
  phase select, element by element, and the component still holds it after the
  run has completed.
\<close>

theorem run_keeps_snapshot:
  assumes "run self w = (None, self', w')"
  shows "(case getattr_bm (bm (host w)) (self_sel_type self) of
            Inl _ \<Rightarrow> False
          | Inr coll \<Rightarrow> self_selection self' = map index (filter select coll)) \<and>
         self_selection self' \<noteq> [] \<and>
         select_calls (new_calls w w') =
           map (Pair (self_sel_type self)) (self_selection self' @ self_selection self')"
proof (cases rule: run_cases [of w self])
  case (no_collection e)
  with assms show ?thesis by simp
next
  case (empty coll)
  with assms show ?thesis by simp
next
  case (started coll s w1)
  from phases_trace [of s w1] obtain evs where
    ih: "calls (snd (phases s w1)) = calls w1 @ evs \<and>
     list_all2 (only_selected (self_sel_type s))
       (take (length (invoked evs)) (self_selection s)) (invoked evs) \<and>
     (fst (phases s w1) = None \<longrightarrow>
        length (invoked evs) = length (self_selection s) \<and>
        select_calls evs =
          map (Pair (self_sel_type s)) (self_selection s @ self_selection s))"
    ..
  have "(fst (phases s w1), s, snd (phases s w1)) = (None, self', w')"
    by (rule started(6) [symmetric, THEN trans, OF assms])
  then have eq: "fst (phases s w1) = None" "self' = s" "w' = snd (phases s w1)"
    by auto
  have k: "self_sel_type s = self_sel_type self" by (simp add: started(3))
  have n: "new_calls w w' = evs"
    using ih started(5) by (simp add: new_calls_def eq)
  have "select_calls evs = map (Pair (self_sel_type s)) (self_selection s @ self_selection s)"
    using ih eq(1) by simp
  then show ?thesis
    using started(1,2) by (simp add: n eq(2) k started(3))
qed

theorem run_keeps_snapshot_witness:
  "run faces_executor example_world =
     (None, faces_executor\<lparr>self_selection := [0, 2, 3]\<rparr>, example_final_world) \<and>
   map index (filter select example_faces) = [0, 2, 3] \<and>
   select_calls (new_calls example_world example_final_world) =
     [(''faces'', 0), (''faces'', 2), (''faces'', 3), (''faces'', 0), (''faces'', 2), (''faces'', 3)]"
  using run_keeps_snapshot [OF run_example] run_example
  by (simp add: faces_executor_def example_faces_def)

text \<open>
  The claim as stated has the snapshot discarded once the run has completed;
  on the example the component holds it still.
\<close>

theorem run_keeps_snapshot_counterexample:
  "fst (run faces_executor example_world) = None \<and>
   self_selection (fst (snd (run faces_executor example_world))) = [0, 2, 3] \<and>
   self_selection (fst (snd (run faces_executor example_world))) \<noteq> []"
  by (simp add: run_example)

text \<open>
  C9. A run leaves the selection kind, the operator reference and the
  parameter mapping as they were, whether it completes or raises.
\<close>

theorem run_keeps_configuration:
  "(case run self w of (r, self', w') \<Rightarrow>
      self_sel_type self' = self_sel_type self \<and>
      self_action self' = self_action self \<and>
      self_param_dict self' = self_param_dict self)"
  by (simp add: run_def store_selection_def Let_def split: sum.splits prod.splits option.splits)

theorem run_keeps_configuration_witness:
  "self_sel_type (fst (snd (run faces_executor example_world))) = ''faces'' \<and>
   self_action (fst (snd (run faces_executor example_world))) = noop_operator \<and>
   self_param_dict (fst (snd (run faces_executor example_world))) = []"
  using run_keeps_configuration [of faces_executor example_world]
  by (simp add: faces_executor_def split: prod.splits)

text \<open>
  C10. Two runs from the same world that differ in the verbose flag only end
  with the same outcome, the same host state, the same sequence of calls into
  the host and the same stored selection; only the console may differ.
\<close>

theorem run_verbose_independent:
  "(case (run (self\<lparr>self_verbose := va\<rparr>) w, run (self\<lparr>self_verbose := vb\<rparr>) w) of
      ((r1, s1, w1), (r2, s2, w2)) \<Rightarrow>
         r1 = r2 \<and> host w1 = host w2 \<and> calls w1 = calls w2 \<and>
         self_selection s1 = self_selection s2)"
proof -
  obtain r1 s1 w1 where st1: "store_selection (self\<lparr>self_verbose := va\<rparr>) w = (r1, s1, w1)"
    by (cases "store_selection (self\<lparr>self_verbose := va\<rparr>) w") auto
  obtain r2 s2 w2 where st2: "store_selection (self\<lparr>self_verbose := vb\<rparr>) w = (r2, s2, w2)"
    by (cases "store_selection (self\<lparr>self_verbose := vb\<rparr>) w") auto
  from store_selection_agree [where self = self and va = va and vb = vb and w = w] st1 st2
  have r: "r1 = r2" and cfg: "same_config s1 s2" and a: "agree w1 w2" by simp_all
  show ?thesis
  proof (cases r1)
    case (Some e)
    with r have r2: "r2 = Some e" by simp
    have "run (self\<lparr>self_verbose := va\<rparr>) w = (Some e, s1, w1)"
      using st1 Some by (simp add: run_def)
    moreover have "run (self\<lparr>self_verbose := vb\<rparr>) w = (Some e, s2, w2)"
      using st2 r2 by (simp add: run_def)
    ultimately show ?thesis
      using cfg a by (simp add: same_config_def agree_def)
  next
    case None
    with r have r2: "r2 = None" by simp
    let ?rest = "\<lambda>s w1. and_then (deselect_all s w1) (\<lambda>w2.
                  and_then (execute_action_on_selection s w2) (\<lambda>w3. restore_selection s w3))"
    have "outcomes_agree (?rest s1 w1) (?rest s2 w2)"
    proof (rule and_then_agree [OF deselect_all_agree [OF a]])
      fix a b assume ab: "agree a b"
      show "outcomes_agree
          (and_then (execute_action_on_selection s1 a) (restore_selection s1))
          (and_then (execute_action_on_selection s2 b) (restore_selection s2))"
      proof (rule and_then_agree)
        show "outcomes_agree (execute_action_on_selection s1 a) (execute_action_on_selection s2 b)"
          using apply_loop_agree [OF ab cfg] cfg
          by (simp add: execute_action_on_selection_def same_config_def)
      next
        fix c d assume "agree c d"
        then show "outcomes_agree (restore_selection s1 c) (restore_selection s2 d)"
          using restore_loop_agree [of c d s1 s2] cfg
          by (simp add: restore_selection_def same_config_def)
      qed
    qed
    moreover have "run (self\<lparr>self_verbose := va\<rparr>) w =
        (fst (?rest s1 w1), s1, snd (?rest s1 w1))"
      using st1 None by (simp add: run_def split: prod.splits)
    moreover have "run (self\<lparr>self_verbose := vb\<rparr>) w =
        (fst (?rest s2 w2), s2, snd (?rest s2 w2))"
      using st2 r2 by (simp add: run_def split: prod.splits)
    ultimately show ?thesis
      using cfg by (simp add: outcomes_agree_def agree_def same_config_def)
  qed
qed

theorem run_verbose_independent_witness:
  "fst (run (faces_executor\<lparr>self_verbose := True\<rparr>) example_world) =
     fst (run (faces_executor\<lparr>self_verbose := False\<rparr>) example_world) \<and>
   host (snd (snd (run (faces_executor\<lparr>self_verbose := True\<rparr>) example_world))) =
     host example_final_world \<and>
   calls (snd (snd (run (faces_executor\<lparr>self_verbose := True\<rparr>) example_world))) =
     calls example_final_world \<and>
   length (console (snd (snd (run (faces_executor\<lparr>self_verbose := True\<rparr>) example_world)))) = 8 \<and>
   console (snd (snd (run (faces_executor\<lparr>self_verbose := False\<rparr>) example_world))) = []"
proof -
  have f: "faces_executor\<lparr>self_verbose := False\<rparr> = faces_executor"
    by (simp add: faces_executor_def)
  from run_verbose_independent [where self = faces_executor and w = example_world and va = True and vb = False]
  show ?thesis
    unfolding f run_example run_example_verbose
    by (simp add: example_final_world_def example_world_def)
qed

end
